theory Spec2Isabelle
  imports Complex_Main "HOL-Library.Signed_Division" "HOL-Library.Word"
begin

section \<open>The index representation of a starting hand (strategy.cpp)\<close>

text \<open>
  A card is a C++ \<open>int\<close>. Every card the functions below compute with lies in
  \<open>[1,52]\<close>, where \<open>card - 1\<close> cannot overflow, so cards and ranks are modelled as
  \<open>int\<close>. The operators \<open>/\<close> and \<open>%\<close> of C++ truncate towards zero: they are
  \<open>sdiv\<close> and \<open>smod\<close>, not the flooring \<open>div\<close> and \<open>mod\<close> of HOL.

  \<open>Strategy::get_index\<close>, lines 30-45: \<open>std::make_pair\<close> is a HOL pair,
  \<open>std::max\<close> and \<open>std::min\<close> are \<open>max\<close> and \<open>min\<close>.
\<close>

definition get_index :: "int \<Rightarrow> int \<Rightarrow> int \<times> int" where
  "get_index card1 card2 =
     (let v1 = (card1 - 1) sdiv 4;
          v2 = (card2 - 1) sdiv 4
      in if v1 = v2 then (v1, v2)
         else
           (let s1 = (card1 - 1) smod 4;
                s2 = (card2 - 1) smod 4
            in if s1 = s2 then (max v1 v2, min v1 v2)
               else (min v1 v2, max v1 v2)))"

text \<open>
  Rank and suit of a card as the data model and the header comment of headsup_nash.cpp
  give them (\<open>1 = 2c, 2 = 2d, 3 = 2h, 4 = 2s, 5 = 3c, ...\<close>). They are used to state
  properties only; \<open>get_index\<close> above does not call them.
\<close>

definition rank :: "int \<Rightarrow> int" where
  "rank c = (c - 1) sdiv 4"

definition suit :: "int \<Rightarrow> int" where
  "suit c = (c - 1) smod 4"

definition is_card :: "int \<Rightarrow> bool" where
  "is_card c = (1 \<le> c \<and> c \<le> 52)"

section \<open>The strategy grid (strategy.cpp)\<close>

text \<open>
  Modelled from the spec: the class declaration in strategy.h is not among the sources.
  The spec's data model and the bounds of the constructor's loops give its one data
  member, \<open>double strategy[13][13]\<close>. The grid is a list of rows. No function of the
  class computes with a cell, cells are only copied, so the model is parametric in the
  cell type \<open>'v\<close> (the source's \<open>double\<close>).

  A subscript outside \<open>[0,12]\<close> is undefined behaviour in C++: the model makes it the
  error \<open>OutOfBounds\<close>.
\<close>

datatype error = OutOfBounds

record 'v Strategy =
  strategy :: "'v list list"

definition wf_Strategy :: "'v Strategy \<Rightarrow> bool" where
  "wf_Strategy S =
     (length (strategy S) = 13 \<and> list_all (\<lambda>row. length row = 13) (strategy S))"

definition in_bounds :: "int \<Rightarrow> int \<Rightarrow> bool" where
  "in_bounds i j = (0 \<le> i \<and> i < 13 \<and> 0 \<le> j \<and> j < 13)"

definition read_cell :: "'v Strategy \<Rightarrow> int \<Rightarrow> int \<Rightarrow> error + 'v" where
  "read_cell S i j =
     (if in_bounds i j then Inr (strategy S ! nat i ! nat j) else Inl OutOfBounds)"

definition write_cell :: "'v Strategy \<Rightarrow> int \<Rightarrow> int \<Rightarrow> 'v \<Rightarrow> error + 'v Strategy" where
  "write_cell S i j v =
     (if in_bounds i j
      then Inr (S\<lparr>strategy := (strategy S)[nat i := (strategy S ! nat i)[nat j := v]]\<rparr>)
      else Inl OutOfBounds)"

text \<open>\<open>Strategy::get_strategy\<close>, lines 16-27.\<close>

definition get_strategy :: "'v Strategy \<Rightarrow> int \<Rightarrow> int \<Rightarrow> bool \<Rightarrow> error + 'v" where
  "get_strategy S card1 card2 is_index_rep =
     (if is_index_rep then read_cell S card1 card2
      else (let index = get_index card1 card2
            in read_cell S (fst index) (snd index)))"

text \<open>\<open>Strategy::set_strategy\<close>, lines 48-60. The updated object is returned.\<close>

definition set_strategy ::
    "'v Strategy \<Rightarrow> int \<Rightarrow> int \<Rightarrow> 'v \<Rightarrow> bool \<Rightarrow> error + 'v Strategy" where
  "set_strategy S card1 card2 v is_index_rep =
     (if is_index_rep then write_cell S card1 card2 v
      else (let index = get_index card1 card2
            in write_cell S (fst index) (snd index) v))"

text \<open>
  The constructor \<open>Strategy::Strategy\<close>, lines 4-13: two nested counting loops, each a
  recursive function of its counter. The constructor starts from the storage of the
  object as it is allocated, \<open>S0\<close>, whose cells hold indeterminate values.
\<close>

function Strategy_inner :: "'v \<Rightarrow> int \<Rightarrow> int \<Rightarrow> 'v Strategy \<Rightarrow> error + 'v Strategy" where
  "Strategy_inner v i j S =
     (if j < 13
      then (case write_cell S i j v of
              Inl e \<Rightarrow> Inl e
            | Inr S' \<Rightarrow> Strategy_inner v i (j + 1) S')
      else Inr S)"
  by pat_completeness auto
termination
  by (relation "measure (\<lambda>(v, i, j, S). nat (13 - j))") auto

function Strategy_outer :: "'v \<Rightarrow> int \<Rightarrow> 'v Strategy \<Rightarrow> error + 'v Strategy" where
  "Strategy_outer v i S =
     (if i < 13
      then (case Strategy_inner v i 0 S of
              Inl e \<Rightarrow> Inl e
            | Inr S' \<Rightarrow> Strategy_outer v (i + 1) S')
      else Inr S)"
  by pat_completeness auto
termination
  by (relation "measure (\<lambda>(v, i, S). nat (13 - i))") auto

definition Strategy_ctor :: "'v \<Rightarrow> 'v Strategy \<Rightarrow> error + 'v Strategy" where
  "Strategy_ctor v S0 = Strategy_outer v 0 S0"

section \<open>The hand-rank table (headsup_nash.cpp)\<close>

text \<open>
  Lines 81-83: \<open>constexpr size_t HR_SIZE = 32487834\<close> and the global
  \<open>std::array<int, HR_SIZE> handranks\<close>. The claim about the table is about the width
  of its elements, so here the C++ \<open>int\<close> is the 32-bit word it is on the platforms
  the program builds for, read as a two's complement number by \<open>sint\<close>. A global of static storage duration is
  zero-initialised before \<open>load_handranks\<close> fills it.
\<close>

type_synonym c_int = "32 word"

definition HR_SIZE :: nat where
  "HR_SIZE = 32487834"

definition handranks :: "c_int list" where
  "handranks = replicate HR_SIZE 0"

section \<open>Enumerating the starting hands\<close>

text \<open>
  The enumeration that the spec's test of \<open>to_index\<close> prescribes: every unordered pair of
  two distinct cards once, the smaller card first; the index pairs the hands reach; the
  hands that reach a given index pair; and the three kinds of hand of the data model, by
  the ranks and suits of the two cards.
\<close>

definition cards :: "int list" where
  "cards = [1..52]"

definition hands :: "(int \<times> int) list" where
  "hands = filter (\<lambda>(c1, c2). c1 < c2) (List.product cards cards)"

definition index_of :: "int \<times> int \<Rightarrow> int \<times> int" where
  "index_of h = get_index (fst h) (snd h)"

definition classes :: "(int \<times> int) list" where
  "classes = remdups (map index_of hands)"

definition members :: "int \<times> int \<Rightarrow> (int \<times> int) list" where
  "members ip = filter (\<lambda>h. index_of h = ip) hands"

definition pocket_pair :: "int \<times> int \<Rightarrow> bool" where
  "pocket_pair h = (rank (fst h) = rank (snd h))"

definition suited :: "int \<times> int \<Rightarrow> bool" where
  "suited h = (rank (fst h) \<noteq> rank (snd h) \<and> suit (fst h) = suit (snd h))"

definition unsuited :: "int \<times> int \<Rightarrow> bool" where
  "unsuited h = (rank (fst h) \<noteq> rank (snd h) \<and> suit (fst h) \<noteq> suit (snd h))"

definition classes_of :: "(int \<times> int \<Rightarrow> bool) \<Rightarrow> (int \<times> int) list" where
  "classes_of kind = remdups (map index_of (filter kind hands))"

text \<open>The hands that reach an index pair, as a set.\<close>

definition class_set :: "int \<times> int \<Rightarrow> (int \<times> int) set" where
  "class_set ip = {h \<in> set hands. index_of h = ip}"

text \<open>The card of a given rank and suit.\<close>

definition card_of :: "int \<Rightarrow> int \<Rightarrow> int" where
  "card_of r s = 4 * r + s + 1"

section \<open>Concrete data for evaluation\<close>

text \<open>A grid of the right shape with every cell 0.\<close>

definition S_zero :: "real Strategy" where
  "S_zero = \<lparr>strategy = replicate 13 (replicate 13 0)\<rparr>"

section \<open>Arithmetic of cards\<close>

lemma sdiv_4_nonneg: "0 \<le> k \<Longrightarrow> k sdiv 4 = k div (4::int)"
  by (simp add: signed_divide_int_def sgn_if)

lemma smod_4_nonneg: "0 \<le> k \<Longrightarrow> k smod 4 = k mod (4::int)"
  by (simp add: signed_modulo_int_def sgn_if)

lemma rank_card: "is_card c \<Longrightarrow> rank c = (c - 1) div 4"
  by (simp add: rank_def is_card_def sdiv_4_nonneg)

lemma suit_card: "is_card c \<Longrightarrow> suit c = (c - 1) mod 4"
  by (simp add: suit_def is_card_def smod_4_nonneg)

lemma rank_range: "is_card c \<Longrightarrow> 0 \<le> rank c \<and> rank c \<le> 12"
  using rank_card [of c] by (simp add: is_card_def) arith

lemma suit_range: "is_card c \<Longrightarrow> 0 \<le> suit c \<and> suit c \<le> 3"
  by (simp add: suit_card)

lemma card_decompose: "is_card c \<Longrightarrow> c = 4 * rank c + suit c + 1"
  by (simp add: rank_card suit_card)

lemma get_index_rank_suit:
  "get_index c1 c2 =
     (if rank c1 = rank c2 then (rank c1, rank c2)
      else if suit c1 = suit c2 then (max (rank c1) (rank c2), min (rank c1) (rank c2))
      else (min (rank c1) (rank c2), max (rank c1) (rank c2)))"
  by (simp add: get_index_def rank_def suit_def Let_def)

lemma get_index_commute: "get_index c1 c2 = get_index c2 c1"
  by (auto simp add: get_index_rank_suit max.commute min.commute)

lemma get_index_in_range:
  "is_card c1 \<Longrightarrow> is_card c2 \<Longrightarrow>
   0 \<le> fst (get_index c1 c2) \<and> fst (get_index c1 c2) \<le> 12 \<and>
   0 \<le> snd (get_index c1 c2) \<and> snd (get_index c1 c2) \<le> 12"
  using rank_range [of c1] rank_range [of c2]
  by (auto simp add: get_index_rank_suit)

lemma get_index_in_bounds:
  "is_card c1 \<Longrightarrow> is_card c2 \<Longrightarrow> in_bounds (fst (get_index c1 c2)) (snd (get_index c1 c2))"
  using get_index_in_range [of c1 c2] by (simp add: in_bounds_def)

lemma wf_Strategy_row:
  "wf_Strategy S \<Longrightarrow> in_bounds i j \<Longrightarrow>
   nat i < length (strategy S) \<and> nat j < length (strategy S ! nat i)"
  by (auto simp add: wf_Strategy_def in_bounds_def list_all_length)

lemma write_cell_wf:
  "wf_Strategy S \<Longrightarrow> write_cell S i j v = Inr S' \<Longrightarrow> wf_Strategy S'"
  by (auto simp add: write_cell_def wf_Strategy_def in_bounds_def list_all_length
      nth_list_update split: if_splits)

lemma write_cell_ok:
  "in_bounds i j \<Longrightarrow> \<exists>S'. write_cell S i j v = Inr S'"
  by (simp add: write_cell_def)

lemma read_write_cell:
  "wf_Strategy S \<Longrightarrow> write_cell S i j v = Inr S' \<Longrightarrow> in_bounds a b \<Longrightarrow>
   read_cell S' a b = (if a = i \<and> b = j then Inr v else read_cell S a b)"
  using wf_Strategy_row [of S i j] wf_Strategy_row [of S a b]
  by (auto simp add: write_cell_def read_cell_def nth_list_update in_bounds_def
      split: if_splits)

lemma Strategy_inner_inv:
  "wf_Strategy S \<Longrightarrow> 0 \<le> i \<Longrightarrow> i < 13 \<Longrightarrow> 0 \<le> j \<Longrightarrow>
   \<exists>S'. Strategy_inner v i j S = Inr S' \<and> wf_Strategy S' \<and>
     (\<forall>a b. in_bounds a b \<longrightarrow>
        read_cell S' a b = (if a = i \<and> j \<le> b then Inr v else read_cell S a b))"
proof (induction v i j S rule: Strategy_inner.induct)
  case (1 v i j S)
  show ?case
  proof (cases "j < 13")
    case False
    then show ?thesis using "1.prems" by (auto simp add: in_bounds_def)
  next
    case True
    then have ib: "in_bounds i j" using "1.prems" by (simp add: in_bounds_def)
    obtain S1 where w: "write_cell S i j v = Inr S1"
      using write_cell_ok [OF ib, of S v] by auto
    have wf1: "wf_Strategy S1" using write_cell_wf [OF "1.prems"(1) w] .
    have "0 \<le> j + 1" using "1.prems"(4) by simp
    from "1.IH" [OF True w wf1 "1.prems"(2) "1.prems"(3) this]
    obtain S' where r: "Strategy_inner v i (j + 1) S1 = Inr S'" and wf': "wf_Strategy S'"
      and cells: "\<forall>a b. in_bounds a b \<longrightarrow>
        read_cell S' a b = (if a = i \<and> j + 1 \<le> b then Inr v else read_cell S1 a b)"
      by blast
    have "Strategy_inner v i j S = Inr S'" using True w r by simp
    moreover have "\<forall>a b. in_bounds a b \<longrightarrow>
        read_cell S' a b = (if a = i \<and> j \<le> b then Inr v else read_cell S a b)"
      using cells read_write_cell [OF "1.prems"(1) w] by auto
    ultimately show ?thesis using wf' by blast
  qed
qed

lemma Strategy_outer_inv:
  "wf_Strategy S \<Longrightarrow> 0 \<le> i \<Longrightarrow>
   \<exists>S'. Strategy_outer v i S = Inr S' \<and> wf_Strategy S' \<and>
     (\<forall>a b. in_bounds a b \<longrightarrow>
        read_cell S' a b = (if i \<le> a then Inr v else read_cell S a b))"
proof (induction v i S rule: Strategy_outer.induct)
  case (1 v i S)
  show ?case
  proof (cases "i < 13")
    case False
    then show ?thesis using "1.prems" by (auto simp add: in_bounds_def)
  next
    case True
    from Strategy_inner_inv [OF "1.prems"(1) "1.prems"(2) True, of 0 v]
    obtain S1 where r1: "Strategy_inner v i 0 S = Inr S1" and wf1: "wf_Strategy S1"
      and cells1: "\<forall>a b. in_bounds a b \<longrightarrow>
        read_cell S1 a b = (if a = i \<and> 0 \<le> b then Inr v else read_cell S a b)"
      by auto
    have "0 \<le> i + 1" using "1.prems"(2) by simp
    from "1.IH" [OF True r1 wf1 this]
    obtain S' where r: "Strategy_outer v (i + 1) S1 = Inr S'" and wf': "wf_Strategy S'"
      and cells: "\<forall>a b. in_bounds a b \<longrightarrow>
        read_cell S' a b = (if i + 1 \<le> a then Inr v else read_cell S1 a b)"
      by blast
    have "Strategy_outer v i S = Inr S'" using True r1 r by simp
    moreover have "\<forall>a b. in_bounds a b \<longrightarrow>
        read_cell S' a b = (if i \<le> a then Inr v else read_cell S a b)"
      using cells cells1 by (auto simp add: in_bounds_def)
    ultimately show ?thesis using wf' by blast
  qed
qed

lemma wf_S_zero: "wf_Strategy S_zero"
  by (simp add: wf_Strategy_def S_zero_def list_all_iff)

section \<open>Claims about the index representation\<close>

text \<open>
  C1. The claim: for two cards in \<open>[1,52]\<close> of distinct ranks, \<open>get_index\<close> returns
  \<open>(r1, r2)\<close> with \<open>r1 < r2\<close> when the cards share a suit and \<open>r1 > r2\<close> when they do not.
  The header comment of headsup_nash.cpp states the same convention and gives the example
  of the three of hearts and the ace of spades, \<open>(7, 52)\<close>, whose index representation
  is to be \<open>(12, 1)\<close>. Evaluated on that very hand, an unsuited one, the code returns
  \<open>(1, 12)\<close>: the lower rank first. On the suited hand of the two and the three of
  clubs, \<open>(1, 5)\<close>, it returns \<open>(1, 0)\<close>: the higher rank first.
\<close>

theorem get_index_unsuited_first_lower:
  "is_card 7 \<and> is_card 52 \<and> rank 7 = 1 \<and> suit 7 = 2 \<and> rank 52 = 12 \<and> suit 52 = 3 \<and>
   get_index 7 52 = (1, 12) \<and>
   is_card 1 \<and> is_card 5 \<and> rank 1 = 0 \<and> suit 1 = 0 \<and> rank 5 = 1 \<and> suit 5 = 0 \<and>
   get_index 1 5 = (1, 0)"
  by (simp add: get_index_def rank_def suit_def is_card_def)

text \<open>
  What the code does on every hand of two distinct ranks: the higher rank first when the
  cards share a suit, the lower rank first when they do not.
\<close>

lemma get_index_orientation:
  "rank c1 \<noteq> rank c2 \<Longrightarrow>
   (suit c1 = suit c2 \<longrightarrow> snd (get_index c1 c2) < fst (get_index c1 c2)) \<and>
   (suit c1 \<noteq> suit c2 \<longrightarrow> fst (get_index c1 c2) < snd (get_index c1 c2))"
  by (auto simp add: get_index_rank_suit)

text \<open>
  C5. For two distinct cards in \<open>[1,52]\<close>, \<open>get_index\<close> does not depend on the order
  in which the two cards are supplied.
\<close>

theorem get_index_order_independent:
  "is_card card1 \<Longrightarrow> is_card card2 \<Longrightarrow> card1 \<noteq> card2 \<Longrightarrow>
   get_index card1 card2 = get_index card2 card1"
  by (rule get_index_commute)

theorem get_index_order_independent_witness:
  "is_card 7 \<and> is_card 52 \<and> (7::int) \<noteq> 52 \<and> get_index 7 52 = get_index 52 7"
  using get_index_order_independent [of 7 52] by (simp add: is_card_def)

section \<open>Counting the hands of each index pair\<close>

lemma set_hands: "set hands = {(c1, c2). is_card c1 \<and> is_card c2 \<and> c1 < c2}"
  by (auto simp add: hands_def cards_def is_card_def)

lemma distinct_hands: "distinct hands"
  by (simp add: hands_def cards_def distinct_product)

lemma card_of_is_card:
  "0 \<le> r \<Longrightarrow> r \<le> 12 \<Longrightarrow> 0 \<le> s \<Longrightarrow> s \<le> 3 \<Longrightarrow> is_card (card_of r s)"
  by (simp add: card_of_def is_card_def)

lemma rank_card_of:
  "0 \<le> r \<Longrightarrow> 0 \<le> s \<Longrightarrow> s \<le> 3 \<Longrightarrow> rank (card_of r s) = r"
  by (simp add: card_of_def rank_def sdiv_4_nonneg)

lemma suit_card_of:
  "0 \<le> r \<Longrightarrow> 0 \<le> s \<Longrightarrow> s \<le> 3 \<Longrightarrow> suit (card_of r s) = s"
  by (simp add: card_of_def suit_def smod_4_nonneg)

lemma card_of_rank_suit: "is_card c \<Longrightarrow> card_of (rank c) (suit c) = c"
  using card_decompose [of c] by (simp add: card_of_def)

lemma hand_order:
  assumes "is_card c1" and "is_card c2"
  shows "c1 < c2 \<longleftrightarrow> rank c1 < rank c2 \<or> (rank c1 = rank c2 \<and> suit c1 < suit c2)"
  using card_decompose [OF assms(1)] card_decompose [OF assms(2)]
    suit_range [OF assms(1)] suit_range [OF assms(2)]
  by arith

lemma card_suit_pairs_lt:
  "card {(s1, s2). (0::int) \<le> s1 \<and> s1 < s2 \<and> s2 \<le> 3} = 6"
proof -
  let ?xs = "filter (\<lambda>(s1, s2). s1 < s2) (List.product [0..3] [0..3::int])"
  have "{(s1, s2). (0::int) \<le> s1 \<and> s1 < s2 \<and> s2 \<le> 3} = set ?xs" by auto
  moreover have "distinct ?xs" by (simp add: distinct_product)
  moreover have "length ?xs = 6" by code_simp
  ultimately show ?thesis by (simp only: distinct_card)
qed

lemma card_suit_pairs_neq:
  "card {(s1, s2). (0::int) \<le> s1 \<and> s1 \<le> 3 \<and> 0 \<le> s2 \<and> s2 \<le> 3 \<and> s1 \<noteq> s2} = 12"
proof -
  let ?xs = "filter (\<lambda>(s1, s2). s1 \<noteq> s2) (List.product [0..3] [0..3::int])"
  have "{(s1, s2). (0::int) \<le> s1 \<and> s1 \<le> 3 \<and> 0 \<le> s2 \<and> s2 \<le> 3 \<and> s1 \<noteq> s2} = set ?xs"
    by auto
  moreover have "distinct ?xs" by (simp add: distinct_product)
  moreover have "length ?xs = 12" by code_simp
  ultimately show ?thesis by (simp only: distinct_card)
qed

lemma card_rank_pairs_lt:
  "card {(a, b). (0::int) \<le> a \<and> a < b \<and> b \<le> 12} = 78"
proof -
  let ?xs = "filter (\<lambda>(a, b). a < b) (List.product [0..12] [0..12::int])"
  have "{(a, b). (0::int) \<le> a \<and> a < b \<and> b \<le> 12} = set ?xs" by auto
  moreover have "distinct ?xs" by (simp add: distinct_product)
  moreover have "length ?xs = 78" by code_simp
  ultimately show ?thesis by (simp only: distinct_card)
qed

lemma card_rank_pairs_gt:
  "card {(a, b). (0::int) \<le> b \<and> b < a \<and> a \<le> 12} = 78"
proof -
  let ?xs = "filter (\<lambda>(a, b). b < a) (List.product [0..12] [0..12::int])"
  have "{(a, b). (0::int) \<le> b \<and> b < a \<and> a \<le> 12} = set ?xs" by auto
  moreover have "distinct ?xs" by (simp add: distinct_product)
  moreover have "length ?xs = 78" by code_simp
  ultimately show ?thesis by (simp only: distinct_card)
qed

lemma index_of_hand:
  "index_of (c1, c2) =
     (if rank c1 = rank c2 then (rank c1, rank c2)
      else if suit c1 = suit c2 then (max (rank c1) (rank c2), min (rank c1) (rank c2))
      else (min (rank c1) (rank c2), max (rank c1) (rank c2)))"
  by (simp add: index_of_def get_index_rank_suit)

lemma hand_kinds: "pocket_pair h \<or> suited h \<or> unsuited h"
  by (auto simp add: pocket_pair_def suited_def unsuited_def)

lemma length_members: "length (members ip) = card (class_set ip)"
proof -
  have "{h. index_of h = ip} \<inter> set hands = class_set ip"
    by (auto simp add: class_set_def)
  then show ?thesis
    by (simp add: members_def distinct_length_filter [OF distinct_hands])
qed

lemma pair_class_set:
  assumes "0 \<le> a" and "a \<le> 12"
  shows "class_set (a, a) =
    (\<lambda>(s1, s2). (card_of a s1, card_of a s2)) ` {(s1, s2). 0 \<le> s1 \<and> s1 < s2 \<and> s2 \<le> 3}"
    (is "?L = ?f ` ?P")
proof (intro set_eqI iffI)
  fix h assume "h \<in> ?L"
  then obtain c1 c2 where h: "h = (c1, c2)" and c: "is_card c1" "is_card c2" and lt: "c1 < c2"
    and ix: "index_of (c1, c2) = (a, a)"
    by (auto simp add: class_set_def set_hands)
  have r: "rank c1 = a \<and> rank c2 = a"
    using ix by (auto simp add: index_of_hand split: if_splits)
  then have "suit c1 < suit c2" using lt hand_order [OF c] by simp
  then have "(suit c1, suit c2) \<in> ?P"
    using suit_range [OF c(1)] suit_range [OF c(2)] by simp
  moreover have "h = ?f (suit c1, suit c2)"
    using r card_of_rank_suit [OF c(1)] card_of_rank_suit [OF c(2)] h by auto
  ultimately show "h \<in> ?f ` ?P" by (rule rev_image_eqI)
next
  fix h assume "h \<in> ?f ` ?P"
  then obtain s1 s2 where h: "h = (card_of a s1, card_of a s2)"
    and s: "0 \<le> s1" "s1 < s2" "s2 \<le> 3"
    by auto
  have c: "is_card (card_of a s1)" "is_card (card_of a s2)"
    using assms s by (simp_all add: card_of_is_card)
  have "rank (card_of a s1) = a" "rank (card_of a s2) = a"
    using assms s by (simp_all add: rank_card_of)
  moreover have "card_of a s1 < card_of a s2" using s by (simp add: card_of_def)
  ultimately show "h \<in> ?L"
    using c h by (simp add: class_set_def set_hands index_of_hand)
qed

lemma pair_class_size:
  assumes "0 \<le> a" and "a \<le> 12"
  shows "length (members (a, a)) = 6"
proof -
  have "inj_on (\<lambda>(s1, s2). (card_of a s1, card_of a s2)) A" for A
    by (auto simp add: inj_on_def card_of_def)
  then show ?thesis
    by (simp add: length_members pair_class_set [OF assms] card_image card_suit_pairs_lt)
qed

lemma suited_class_set:
  assumes "0 \<le> b" and "b < a" and "a \<le> 12"
  shows "class_set (a, b) = (\<lambda>s. (card_of b s, card_of a s)) ` {0..3}"
    (is "?L = ?f ` ?P")
proof (intro set_eqI iffI)
  fix h assume "h \<in> ?L"
  then obtain c1 c2 where h: "h = (c1, c2)" and c: "is_card c1" "is_card c2" and lt: "c1 < c2"
    and ix: "index_of (c1, c2) = (a, b)"
    by (auto simp add: class_set_def set_hands)
  have le: "rank c1 \<le> rank c2" using lt hand_order [OF c] by auto
  have r: "rank c1 = b \<and> rank c2 = a \<and> suit c1 = suit c2"
    using ix le assms(2) by (auto simp add: index_of_hand split: if_splits)
  have "suit c1 \<in> ?P" using suit_range [OF c(1)] by simp
  moreover have "h = ?f (suit c1)"
    using r card_of_rank_suit [OF c(1)] card_of_rank_suit [OF c(2)] h by auto
  ultimately show "h \<in> ?f ` ?P" by (rule rev_image_eqI)
next
  fix h assume "h \<in> ?f ` ?P"
  then obtain s where h: "h = (card_of b s, card_of a s)" and s: "0 \<le> s" "s \<le> 3"
    by auto
  have c: "is_card (card_of b s)" "is_card (card_of a s)"
    using assms s by (simp_all add: card_of_is_card)
  have "rank (card_of b s) = b" "rank (card_of a s) = a"
    "suit (card_of b s) = s" "suit (card_of a s) = s"
    using assms s by (simp_all add: rank_card_of suit_card_of)
  moreover have "card_of b s < card_of a s" using assms(2) by (simp add: card_of_def)
  ultimately show "h \<in> ?L"
    using c h assms(2) by (simp add: class_set_def set_hands index_of_hand)
qed

lemma suited_class_size:
  assumes "0 \<le> b" and "b < a" and "a \<le> 12"
  shows "length (members (a, b)) = 4"
proof -
  have "inj_on (\<lambda>s. (card_of b s, card_of a s)) A" for A
    by (auto simp add: inj_on_def card_of_def)
  then show ?thesis
    by (simp add: length_members suited_class_set [OF assms] card_image)
qed

lemma unsuited_class_set:
  assumes "0 \<le> a" and "a < b" and "b \<le> 12"
  shows "class_set (a, b) =
    (\<lambda>(s1, s2). (card_of a s1, card_of b s2)) `
      {(s1, s2). 0 \<le> s1 \<and> s1 \<le> 3 \<and> 0 \<le> s2 \<and> s2 \<le> 3 \<and> s1 \<noteq> s2}"
    (is "?L = ?f ` ?P")
proof (intro set_eqI iffI)
  fix h assume "h \<in> ?L"
  then obtain c1 c2 where h: "h = (c1, c2)" and c: "is_card c1" "is_card c2" and lt: "c1 < c2"
    and ix: "index_of (c1, c2) = (a, b)"
    by (auto simp add: class_set_def set_hands)
  have le: "rank c1 \<le> rank c2" using lt hand_order [OF c] by auto
  have r: "rank c1 = a \<and> rank c2 = b \<and> suit c1 \<noteq> suit c2"
    using ix le assms(2) by (auto simp add: index_of_hand split: if_splits)
  have "(suit c1, suit c2) \<in> ?P"
    using r suit_range [OF c(1)] suit_range [OF c(2)] by simp
  moreover have "h = ?f (suit c1, suit c2)"
    using r card_of_rank_suit [OF c(1)] card_of_rank_suit [OF c(2)] h by auto
  ultimately show "h \<in> ?f ` ?P" by (rule rev_image_eqI)
next
  fix h assume "h \<in> ?f ` ?P"
  then obtain s1 s2 where h: "h = (card_of a s1, card_of b s2)"
    and s: "0 \<le> s1" "s1 \<le> 3" "0 \<le> s2" "s2 \<le> 3" "s1 \<noteq> s2"
    by auto
  have c: "is_card (card_of a s1)" "is_card (card_of b s2)"
    using assms s by (simp_all add: card_of_is_card)
  have "rank (card_of a s1) = a" "rank (card_of b s2) = b"
    "suit (card_of a s1) = s1" "suit (card_of b s2) = s2"
    using assms s by (simp_all add: rank_card_of suit_card_of)
  moreover have "card_of a s1 < card_of b s2" using assms(2) s by (simp add: card_of_def)
  ultimately show "h \<in> ?L"
    using c h assms(2) s(5) by (simp add: class_set_def set_hands index_of_hand)
qed

lemma unsuited_class_size:
  assumes "0 \<le> a" and "a < b" and "b \<le> 12"
  shows "length (members (a, b)) = 12"
proof -
  have "inj_on (\<lambda>(s1, s2). (card_of a s1, card_of b s2)) A" for A
    by (auto simp add: inj_on_def card_of_def)
  then show ?thesis
    by (simp add: length_members unsuited_class_set [OF assms] card_image card_suit_pairs_neq)
qed

lemma set_classes_of: "set (classes_of kind) = index_of ` {h \<in> set hands. kind h}"
  by (auto simp add: classes_of_def)

lemma pair_classes_set:
  "set (classes_of pocket_pair) = (\<lambda>a. (a, a)) ` {0..12}" (is "?L = ?R")
proof (intro set_eqI iffI)
  fix ip assume "ip \<in> ?L"
  then obtain c1 c2 where c: "is_card c1" "is_card c2" and k: "rank c1 = rank c2"
    and ip: "ip = index_of (c1, c2)"
    by (auto simp add: set_classes_of set_hands pocket_pair_def)
  show "ip \<in> ?R" using ip k rank_range [OF c(1)] by (simp add: index_of_hand)
next
  fix ip assume "ip \<in> ?R"
  then obtain a where a: "0 \<le> a" "a \<le> 12" and ip: "ip = (a, a)" by auto
  let ?h = "(card_of a 0, card_of a 1)"
  have r: "rank (card_of a 0) = a" "rank (card_of a 1) = a"
    using a by (simp_all add: rank_card_of)
  have "?h \<in> set hands"
    using a by (simp add: set_hands card_of_is_card) (simp add: card_of_def)
  moreover have "pocket_pair ?h" using r by (simp add: pocket_pair_def)
  moreover have "index_of ?h = ip" using r ip by (simp add: index_of_hand)
  ultimately show "ip \<in> ?L" by (auto simp add: set_classes_of)
qed

lemma suited_classes_set:
  "set (classes_of suited) = {(a, b). 0 \<le> b \<and> b < a \<and> a \<le> 12}" (is "?L = ?R")
proof (intro set_eqI iffI)
  fix ip assume "ip \<in> ?L"
  then obtain c1 c2 where c: "is_card c1" "is_card c2" and lt: "c1 < c2"
    and k: "rank c1 \<noteq> rank c2" "suit c1 = suit c2" and ip: "ip = index_of (c1, c2)"
    by (auto simp add: set_classes_of set_hands suited_def)
  have "rank c1 < rank c2" using lt k hand_order [OF c] by auto
  then show "ip \<in> ?R"
    using ip k rank_range [OF c(1)] rank_range [OF c(2)] by (simp add: index_of_hand)
next
  fix ip assume "ip \<in> ?R"
  then obtain a b where ab: "0 \<le> b" "b < a" "a \<le> 12" and ip: "ip = (a, b)" by auto
  let ?h = "(card_of b 0, card_of a 0)"
  have r: "rank (card_of b 0) = b" "rank (card_of a 0) = a"
    "suit (card_of b 0) = 0" "suit (card_of a 0) = 0"
    using ab by (simp_all add: rank_card_of suit_card_of)
  have "?h \<in> set hands"
    using ab by (simp add: set_hands card_of_is_card) (simp add: card_of_def)
  moreover have "suited ?h" using r ab by (simp add: suited_def)
  moreover have "index_of ?h = ip" using r ip ab by (simp add: index_of_hand)
  ultimately show "ip \<in> ?L" by (auto simp add: set_classes_of)
qed

lemma unsuited_classes_set:
  "set (classes_of unsuited) = {(a, b). 0 \<le> a \<and> a < b \<and> b \<le> 12}" (is "?L = ?R")
proof (intro set_eqI iffI)
  fix ip assume "ip \<in> ?L"
  then obtain c1 c2 where c: "is_card c1" "is_card c2" and lt: "c1 < c2"
    and k: "rank c1 \<noteq> rank c2" "suit c1 \<noteq> suit c2" and ip: "ip = index_of (c1, c2)"
    by (auto simp add: set_classes_of set_hands unsuited_def)
  have "rank c1 < rank c2" using lt k hand_order [OF c] by auto
  then show "ip \<in> ?R"
    using ip k rank_range [OF c(1)] rank_range [OF c(2)] by (simp add: index_of_hand)
next
  fix ip assume "ip \<in> ?R"
  then obtain a b where ab: "0 \<le> a" "a < b" "b \<le> 12" and ip: "ip = (a, b)" by auto
  let ?h = "(card_of a 0, card_of b 1)"
  have r: "rank (card_of a 0) = a" "rank (card_of b 1) = b"
    "suit (card_of a 0) = 0" "suit (card_of b 1) = 1"
    using ab by (simp_all add: rank_card_of suit_card_of)
  have "?h \<in> set hands"
    using ab by (simp add: set_hands card_of_is_card) (simp add: card_of_def)
  moreover have "unsuited ?h" using r ab by (simp add: unsuited_def)
  moreover have "index_of ?h = ip" using r ip ab by (simp add: index_of_hand)
  ultimately show "ip \<in> ?L" by (auto simp add: set_classes_of)
qed

lemma length_classes_of: "length (classes_of kind) = card (set (classes_of kind))"
  by (simp add: classes_of_def length_remdups_card_conv)

lemma length_pair_classes: "length (classes_of pocket_pair) = 13"
proof -
  have "inj_on (\<lambda>a::int. (a, a)) A" for A by (simp add: inj_on_def)
  then show ?thesis by (simp add: length_classes_of pair_classes_set card_image)
qed

lemma length_suited_classes: "length (classes_of suited) = 78"
  by (simp add: length_classes_of suited_classes_set card_rank_pairs_gt)

lemma length_unsuited_classes: "length (classes_of unsuited) = 78"
  by (simp add: length_classes_of unsuited_classes_set card_rank_pairs_lt)

lemma pair_classes_sizes:
  "list_all (\<lambda>ip. length (members ip) = 6) (classes_of pocket_pair)"
  by (auto simp add: list_all_iff pair_classes_set pair_class_size)

lemma suited_classes_sizes:
  "list_all (\<lambda>ip. length (members ip) = 4) (classes_of suited)"
  by (auto simp add: list_all_iff suited_classes_set suited_class_size)

lemma unsuited_classes_sizes:
  "list_all (\<lambda>ip. length (members ip) = 12) (classes_of unsuited)"
  by (auto simp add: list_all_iff unsuited_classes_set unsuited_class_size)

lemma distinct_kind_classes:
  "distinct (classes_of pocket_pair @ classes_of suited @ classes_of unsuited)"
proof -
  have "distinct (classes_of kind)" for kind by (simp add: classes_of_def)
  then show ?thesis
    by (auto simp add: pair_classes_set suited_classes_set unsuited_classes_set)
qed

lemma set_classes:
  "set classes = set (classes_of pocket_pair @ classes_of suited @ classes_of unsuited)"
proof -
  have "set classes = index_of ` set hands" by (simp add: classes_def)
  also have "set hands = {h \<in> set hands. pocket_pair h} \<union> {h \<in> set hands. suited h}
      \<union> {h \<in> set hands. unsuited h}"
    using hand_kinds by blast
  finally show ?thesis by (auto simp add: set_classes_of image_Un)
qed

lemma length_classes: "length classes = 169"
proof -
  have "length classes = card (set classes)"
    by (simp add: classes_def length_remdups_card_conv)
  also have "\<dots> = length (classes_of pocket_pair @ classes_of suited @ classes_of unsuited)"
    by (simp only: set_classes distinct_card [OF distinct_kind_classes])
  also have "\<dots> = 169"
    by (simp add: length_pair_classes length_suited_classes length_unsuited_classes)
  finally show ?thesis .
qed

lemma sum_class_sizes:
  assumes "list_all (\<lambda>ip. length (members ip) = n) (classes_of kind)"
  shows "(\<Sum>ip\<in>set (classes_of kind). card (class_set ip)) = length (classes_of kind) * n"
proof -
  have "(\<Sum>ip\<in>set (classes_of kind). card (class_set ip)) = (\<Sum>ip\<in>set (classes_of kind). n)"
    using assms by (intro sum.cong) (simp_all add: list_all_iff length_members)
  then show ?thesis by (simp add: length_classes_of)
qed

lemma length_hands: "length hands = 1326"
proof -
  let ?P = "set (classes_of pocket_pair)"
  let ?S = "set (classes_of suited)"
  let ?U = "set (classes_of unsuited)"
  have disj: "?P \<inter> ?S = {}" "(?P \<union> ?S) \<inter> ?U = {}"
    using distinct_kind_classes by auto
  have "set hands = (\<Union>ip\<in>set classes. class_set ip)"
    by (auto simp add: class_set_def classes_def)
  moreover have "finite (class_set ip)" for ip
    by (simp add: class_set_def)
  moreover have "class_set ip \<inter> class_set ip' = {}" if "ip \<noteq> ip'" for ip ip'
    using that by (auto simp add: class_set_def)
  ultimately have "card (set hands) = (\<Sum>ip\<in>set classes. card (class_set ip))"
    by (simp add: card_UN_disjoint)
  also have "set classes = (?P \<union> ?S) \<union> ?U"
    by (simp add: set_classes Un_assoc)
  also have "(\<Sum>ip\<in>(?P \<union> ?S) \<union> ?U. card (class_set ip)) =
      (\<Sum>ip\<in>?P. card (class_set ip)) + (\<Sum>ip\<in>?S. card (class_set ip)) +
      (\<Sum>ip\<in>?U. card (class_set ip))"
    using disj by (simp add: sum.union_disjoint)
  also have "\<dots> = 13 * 6 + 78 * 4 + 78 * 12"
    by (simp only: sum_class_sizes [OF pair_classes_sizes]
        sum_class_sizes [OF suited_classes_sizes] sum_class_sizes [OF unsuited_classes_sizes]
        length_pair_classes length_suited_classes length_unsuited_classes)
  finally show ?thesis by (simp add: distinct_card [OF distinct_hands])
qed


text \<open>
  C2. \<open>get_index\<close> has no failing branch, so it returns an index pair on every hand.
  Over the 1326 unordered pairs of distinct cards in \<open>[1,52]\<close> it reaches exactly 169
  index pairs. They fall into three families that share no index pair: 13 reached by
  pocket pairs, each by exactly 6 hands; 78 reached by suited hands, each by exactly 4;
  78 reached by unsuited hands, each by exactly 12; and the class sizes sum to the 1326
  hands.
\<close>

theorem get_index_classes:
  "length hands = 1326 \<and> distinct hands \<and>
   set hands = {(c1, c2). is_card c1 \<and> is_card c2 \<and> c1 < c2} \<and>
   length classes = 169 \<and>
   set classes = set (classes_of pocket_pair @ classes_of suited @ classes_of unsuited) \<and>
   distinct (classes_of pocket_pair @ classes_of suited @ classes_of unsuited) \<and>
   length (classes_of pocket_pair) = 13 \<and>
   list_all (\<lambda>ip. length (members ip) = 6) (classes_of pocket_pair) \<and>
   length (classes_of suited) = 78 \<and>
   list_all (\<lambda>ip. length (members ip) = 4) (classes_of suited) \<and>
   length (classes_of unsuited) = 78 \<and>
   list_all (\<lambda>ip. length (members ip) = 12) (classes_of unsuited) \<and>
   length hands =
     length (classes_of pocket_pair) * 6 + length (classes_of suited) * 4 +
     length (classes_of unsuited) * 12"
  using length_hands distinct_hands set_hands length_classes set_classes distinct_kind_classes
    length_pair_classes pair_classes_sizes length_suited_classes suited_classes_sizes
    length_unsuited_classes unsuited_classes_sizes
  by simp

section \<open>Claims about the strategy grid\<close>

text \<open>
  C3. For two distinct cards in \<open>[1,52]\<close> and every grid, reading in the specific
  representation equals reading in the index representation at the pair that
  \<open>get_index\<close> derives, and the read succeeds (it is no out-of-range access).
\<close>

theorem get_strategy_representations_agree:
  assumes "wf_Strategy S" and "is_card card1" and "is_card card2" and "card1 \<noteq> card2"
  shows "get_strategy S card1 card2 False =
           get_strategy S (fst (get_index card1 card2)) (snd (get_index card1 card2)) True \<and>
         (\<exists>x. get_strategy S card1 card2 False = Inr x)"
  using get_index_in_bounds [OF assms(2) assms(3)]
  by (simp add: get_strategy_def read_cell_def Let_def)

theorem get_strategy_representations_agree_witness:
  "wf_Strategy S_zero \<and> is_card 7 \<and> is_card 52 \<and> (7::int) \<noteq> 52 \<and>
   get_strategy S_zero 7 52 False = get_strategy S_zero 1 12 True \<and>
   (\<exists>x. get_strategy S_zero 7 52 False = Inr x)"
proof -
  have c: "is_card 7" "is_card 52" by (simp_all add: is_card_def)
  have ix: "get_index 7 52 = (1, 12)" by (simp add: get_index_def)
  have ne: "(7::int) \<noteq> 52" by simp
  note t = get_strategy_representations_agree [OF wf_S_zero c ne]
  have a: "get_strategy S_zero 7 52 False = get_strategy S_zero 1 12 True"
    using t by (simp add: ix)
  have b: "\<exists>x. get_strategy S_zero 7 52 False = Inr x"
    using t by blast
  show ?thesis using a b c ne wf_S_zero by blast
qed

section \<open>Claim about the hand-rank table\<close>

text \<open>
  C8. The hand-rank table has exactly 32,487,834 elements (\<open>HR_SIZE\<close>), each a
  signed 32-bit integer: read as a two's complement number, every element lies in
  \<open>[-2^31, 2^31)\<close>.
\<close>

theorem handranks_size:
  "HR_SIZE = 32487834 \<and> length handranks = 32487834 \<and>
   list_all (\<lambda>x. - (2 ^ 31) \<le> sint x \<and> sint x < 2 ^ 31) handranks"
proof -
  have "- (2 ^ 31) \<le> sint x \<and> sint x < 2 ^ 31" for x :: c_int
    using sint_ge [of x] sint_lt [of x] by simp
  then show ?thesis
    by (simp add: HR_SIZE_def handranks_def list_all_iff)
qed

section \<open>Writing and reading a cell\<close>

lemma set_get_index_rep:
  assumes "wf_Strategy S" and "in_bounds i j"
  shows "\<exists>S'. set_strategy S i j v True = Inr S' \<and> wf_Strategy S' \<and>
              get_strategy S' i j True = Inr v"
proof -
  obtain S' where w: "write_cell S i j v = Inr S'"
    using write_cell_ok [OF assms(2), of S v] by auto
  have "read_cell S' i j = Inr v"
    using read_write_cell [OF assms(1) w assms(2)] by simp
  then show ?thesis
    using w write_cell_wf [OF assms(1) w] by (simp add: set_strategy_def get_strategy_def)
qed

lemma set_get_specific_rep:
  assumes "wf_Strategy S" and "is_card c1" and "is_card c2"
  shows "\<exists>S'. set_strategy S c1 c2 v False = Inr S' \<and> wf_Strategy S' \<and>
              get_strategy S' c1 c2 False = Inr v"
  using set_get_index_rep [OF assms(1) get_index_in_bounds [OF assms(2) assms(3)], of v]
  by (simp add: set_strategy_def get_strategy_def Let_def)

text \<open>
  C9. On a grid, \<open>set_strategy\<close> of \<open>v\<close> at an index pair in \<open>[0,12] \<times> [0,12]\<close>
  followed by \<open>get_strategy\<close> at the same pair returns exactly \<open>v\<close>; likewise in the
  specific representation, for two distinct cards in \<open>[1,52]\<close>.
\<close>

theorem set_then_get_strategy:
  assumes "wf_Strategy S"
  shows "(0 \<le> i \<and> i \<le> 12 \<and> 0 \<le> j \<and> j \<le> 12 \<longrightarrow>
            (\<exists>S'. set_strategy S i j v True = Inr S' \<and> get_strategy S' i j True = Inr v)) \<and>
         (is_card card1 \<and> is_card card2 \<and> card1 \<noteq> card2 \<longrightarrow>
            (\<exists>S'. set_strategy S card1 card2 v False = Inr S' \<and>
                  get_strategy S' card1 card2 False = Inr v))"
proof (intro conjI impI)
  assume "0 \<le> i \<and> i \<le> 12 \<and> 0 \<le> j \<and> j \<le> 12"
  then have "in_bounds i j" by (simp add: in_bounds_def)
  from set_get_index_rep [OF assms this, of v]
  show "\<exists>S'. set_strategy S i j v True = Inr S' \<and> get_strategy S' i j True = Inr v"
    by blast
next
  assume "is_card card1 \<and> is_card card2 \<and> card1 \<noteq> card2"
  then have "is_card card1" and "is_card card2" by simp_all
  from set_get_specific_rep [OF assms this, of v]
  show "\<exists>S'. set_strategy S card1 card2 v False = Inr S' \<and>
             get_strategy S' card1 card2 False = Inr v"
    by blast
qed

theorem set_then_get_strategy_witness:
  "wf_Strategy S_zero \<and>
   (\<exists>S'. set_strategy S_zero 3 12 (1/2) True = Inr S' \<and> get_strategy S' 3 12 True = Inr (1/2)) \<and>
   is_card 7 \<and> is_card 52 \<and> (7::int) \<noteq> 52 \<and>
   (\<exists>S'. set_strategy S_zero 7 52 (1/2) False = Inr S' \<and>
         get_strategy S' 7 52 False = Inr (1/2))"
  using set_then_get_strategy [OF wf_S_zero, of 3 12 "1/2" 7 52] wf_S_zero
  by (simp add: is_card_def)

text \<open>
  C10. For two distinct cards in \<open>[1,52]\<close>, both coordinates of \<open>get_index\<close> lie in
  \<open>[0,12]\<close>, so \<open>get_strategy\<close> and \<open>set_strategy\<close> in the specific representation
  subscript the 13 by 13 array within its bounds: the row exists, the column exists in
  that row, and neither call is an out-of-range access.
\<close>

theorem specific_access_in_bounds:
  assumes "wf_Strategy S" and "is_card card1" and "is_card card2" and "card1 \<noteq> card2"
  shows "0 \<le> fst (get_index card1 card2) \<and> fst (get_index card1 card2) \<le> 12 \<and>
         0 \<le> snd (get_index card1 card2) \<and> snd (get_index card1 card2) \<le> 12 \<and>
         nat (fst (get_index card1 card2)) < length (strategy S) \<and>
         nat (snd (get_index card1 card2)) <
           length (strategy S ! nat (fst (get_index card1 card2))) \<and>
         get_strategy S card1 card2 False \<noteq> Inl OutOfBounds \<and>
         set_strategy S card1 card2 v False \<noteq> Inl OutOfBounds"
  using get_index_in_range [OF assms(2) assms(3)]
    wf_Strategy_row [OF assms(1) get_index_in_bounds [OF assms(2) assms(3)]]
    get_index_in_bounds [OF assms(2) assms(3)]
  by (simp add: get_strategy_def set_strategy_def read_cell_def write_cell_def Let_def)

theorem specific_access_in_bounds_witness:
  "wf_Strategy S_zero \<and> is_card 7 \<and> is_card 52 \<and> (7::int) \<noteq> 52 \<and>
   get_index 7 52 = (1, 12) \<and>
   get_strategy S_zero 7 52 False \<noteq> Inl OutOfBounds \<and>
   set_strategy S_zero 7 52 (1/2) False \<noteq> Inl OutOfBounds"
  using specific_access_in_bounds [OF wf_S_zero, of 7 52 "1/2"] wf_S_zero
  by (simp add: is_card_def get_index_def)

text \<open>
  C4. A freshly constructed \<open>Strategy(v)\<close> holds \<open>v\<close> in every cell: whatever the
  storage held before, the constructor returns, the grid keeps its shape, and
  \<open>get_strategy\<close> at every index pair in \<open>[0,12] \<times> [0,12]\<close> returns \<open>v\<close>.
\<close>

theorem Strategy_ctor_uniform:
  assumes "wf_Strategy S0" and "0 \<le> i" and "i \<le> 12" and "0 \<le> j" and "j \<le> 12"
  shows "\<exists>S. Strategy_ctor v S0 = Inr S \<and> wf_Strategy S \<and>
             get_strategy S i j True = Inr v"
proof -
  from Strategy_outer_inv [OF assms(1), of 0 v]
  obtain S where r: "Strategy_outer v 0 S0 = Inr S" and wf: "wf_Strategy S"
    and cells: "\<forall>a b. in_bounds a b \<longrightarrow>
        read_cell S a b = (if 0 \<le> a then Inr v else read_cell S0 a b)"
    by auto
  have "in_bounds i j" using assms by (simp add: in_bounds_def)
  then have "read_cell S i j = Inr v" using cells assms(2) by simp
  then show ?thesis using r wf by (simp add: Strategy_ctor_def get_strategy_def)
qed

theorem Strategy_ctor_uniform_witness:
  "wf_Strategy S_zero \<and> (0::int) \<le> 3 \<and> (3::int) \<le> 12 \<and> (0::int) \<le> 12 \<and> (12::int) \<le> 12 \<and>
   (\<exists>S. Strategy_ctor 1 S_zero = Inr S \<and> wf_Strategy S \<and>
         get_strategy S 3 12 True = Inr 1)"
  using Strategy_ctor_uniform [OF wf_S_zero, of 3 12 1] wf_S_zero by simp

end
